theory Spec2Isabelle
  imports Main "HOL-Library.Multiset"
begin

section \<open>The DNS host provider of the ZooKeeper client (dnshostprovider.go)\<close>

text \<open>
  The provider holds a shuffled list of candidate servers, a cursor \<open>curr\<close> and an anchor
  \<open>last\<close>. Every operation takes the provider's mutex for its whole duration, so each one is
  modelled as one atomic function from the state before the call to the state after it.
  Go's \<open>int\<close> fields are modelled as \<open>int\<close>: the cursor never exceeds the length of the
  slice, so no arithmetic of this file can overflow.
\<close>

subsection \<open>Errors and panics\<close>

datatype addr_err_kind =
  MissingPort | TooManyColons | MissingCloseBracket | UnexpectedOpenBracket
  | UnexpectedCloseBracket

text \<open>
  \<open>AddrError\<close> is the error of \<open>net.SplitHostPort\<close>; \<open>NoHostsForAddresses\<close> and
  \<open>NoHostsForAddress\<close> are the two \<open>fmt.Errorf\<close> values of the source (lines 39 and 77),
  carrying their argument; \<open>LookupError\<close> stands for any error a resolver returns.
\<close>

datatype error =
  AddrError addr_err_kind string
  | NoHostsForAddresses "string list"
  | NoHostsForAddress string
  | LookupError string

text \<open>The run-time panics of Go that the code of \<open>Next\<close> can raise.\<close>

datatype panic = DivideByZero | IndexOutOfRange

subsection \<open>Data\<close>

record inetAddress =
  host :: string
  port :: string
  resolved :: bool

text \<open>
  The field \<open>last\<close> of the source is named \<open>last_ix\<close>, since \<open>last\<close> is a list function
  of HOL. \<open>lookupHost\<close> is \<open>None\<close> for Go's \<open>nil\<close>. The mutex carries no data.
\<close>

record DNSHostProvider =
  servers :: "inetAddress list"
  curr :: int
  last_ix :: int
  lookupHost :: "(string \<Rightarrow> error + string list) option"

text \<open>
  What the provider touches outside itself: the process-wide random source of \<open>math/rand\<close>
  (a sequence of raw draws and the position of the next one), the system resolver
  \<open>net.LookupHost\<close>, the record of every resolver invocation (the host names asked for, in
  order), and the lines handed to the logger.
\<close>

record world =
  rand_draws :: "nat \<Rightarrow> nat"
  rand_pos :: nat
  netLookupHost :: "string \<Rightarrow> error + string list"
  lookups :: "string list"
  logged :: "(string \<times> error) list"

text \<open>A freshly allocated provider, \<open>&DNSHostProvider{lookupHost: f}\<close>: Go zeroes the rest.\<close>

definition zero_provider :: "(string \<Rightarrow> error + string list) option \<Rightarrow> DNSHostProvider" where
  "zero_provider f = \<lparr>servers = [], curr = 0, last_ix = 0, lookupHost = f\<rparr>"

subsection \<open>Library functions the source calls\<close>

text \<open>
  The functions of this subsection belong to Go's standard library (packages \<open>net\<close>,
  \<open>math/rand\<close> and the byte search helpers behind them), not to the repository. They are
  written after the library: \<open>IndexByteString\<close> and \<open>LastIndexByteString\<close> return the
  first and the last position of a byte, or -1.
\<close>

fun IndexByteString :: "string \<Rightarrow> char \<Rightarrow> int" where
  "IndexByteString [] c = - 1"
| "IndexByteString (x # xs) c =
     (if x = c then 0
      else (let r = IndexByteString xs c in if r < 0 then - 1 else r + 1))"

definition LastIndexByteString :: "string \<Rightarrow> char \<Rightarrow> int" where
  "LastIndexByteString s c =
     (let r = IndexByteString (rev s) c in if r < 0 then - 1 else int (length s) - 1 - r)"

text \<open>
  \<open>net.SplitHostPort\<close>: the port starts after the last colon; a host in square brackets
  must end just before that colon; a host without brackets holds no colon; no bracket
  appears anywhere else.
\<close>

definition SplitHostPort :: "string \<Rightarrow> error + (string \<times> string)" where
  "SplitHostPort hostport =
     (let i = LastIndexByteString hostport CHR '':'';
          finish = (\<lambda>h j k.
            if 0 \<le> IndexByteString (drop j hostport) CHR ''[''
              then Inl (AddrError UnexpectedOpenBracket hostport)
            else if 0 \<le> IndexByteString (drop k hostport) CHR '']''
              then Inl (AddrError UnexpectedCloseBracket hostport)
            else Inr (h, drop (nat (i + 1)) hostport))
      in if i < 0 then Inl (AddrError MissingPort hostport)
         else if hostport ! 0 = CHR ''['' then
           (let e = IndexByteString hostport CHR '']'' in
            if e < 0 then Inl (AddrError MissingCloseBracket hostport)
            else if e + 1 = int (length hostport) then Inl (AddrError MissingPort hostport)
            else if e + 1 = i then finish (take (nat e - 1) (drop 1 hostport)) 1 (nat (e + 1))
            else if hostport ! nat (e + 1) = CHR '':''
              then Inl (AddrError TooManyColons hostport)
            else Inl (AddrError MissingPort hostport))
         else (let h = take (nat i) hostport in
               if 0 \<le> IndexByteString h CHR '':''
                 then Inl (AddrError TooManyColons hostport)
               else finish h 0 0))"

text \<open>\<open>net.JoinHostPort\<close>: a host holding a colon is taken for an IPv6 literal and bracketed.\<close>

definition JoinHostPort :: "string \<Rightarrow> string \<Rightarrow> string" where
  "JoinHostPort h p =
     (if 0 \<le> IndexByteString h CHR '':'' then ''['' @ h @ '']:'' @ p else h @ '':'' @ p)"

text \<open>\<open>rand.Intn n\<close> for \<open>n > 0\<close>: the next draw, reduced below \<open>n\<close>.\<close>

definition Intn :: "nat \<Rightarrow> world \<Rightarrow> nat \<times> world" where
  "Intn n w = (rand_draws w (rand_pos w) mod n, w\<lparr>rand_pos := Suc (rand_pos w)\<rparr>)"

text \<open>The callback both calls of \<open>rand.Shuffle\<close> pass: exchange positions \<open>i\<close> and \<open>j\<close>.\<close>

definition swap :: "nat \<Rightarrow> nat \<Rightarrow> 'a list \<Rightarrow> 'a list" where
  "swap i j xs = xs[i := xs ! j, j := xs ! i]"

text \<open>
  \<open>rand.Shuffle\<close> is the Fisher-Yates loop \<open>for i := n - 1; i > 0; i-- { swap(i, Intn(i + 1)) }\<close>;
  \<open>shuffle_from i\<close> is the loop from index \<open>i\<close> downwards.
\<close>

fun shuffle_from :: "nat \<Rightarrow> 'a list \<Rightarrow> world \<Rightarrow> 'a list \<times> world" where
  "shuffle_from 0 xs w = (xs, w)"
| "shuffle_from (Suc i) xs w =
     (case Intn (Suc (Suc i)) w of (j, w') \<Rightarrow> shuffle_from i (swap (Suc i) j xs) w')"

definition Shuffle :: "'a list \<Rightarrow> world \<Rightarrow> 'a list \<times> world" where
  "Shuffle xs w = shuffle_from (length xs - 1) xs w"

text \<open>
  Modelled from the spec: \<open>DefaultLogger\<close> is declared elsewhere in the package, not under
  src/. The spec describes it as a diagnostic sink that accepts log lines and is never
  consulted for control flow; \<open>Printf\<close> records the host and the error it is given.
\<close>

definition Printf :: "string \<Rightarrow> error \<Rightarrow> world \<Rightarrow> world" where
  "Printf h e w = w\<lparr>logged := logged w @ [(h, e)]\<rparr>"

text \<open>Go's \<open>%\<close> on integers truncates towards zero: the result has the sign of the dividend.\<close>

definition go_rem :: "int \<Rightarrow> int \<Rightarrow> int" where
  "go_rem x y = (if 0 \<le> x then x mod \<bar>y\<bar> else - ((- x) mod \<bar>y\<bar>))"

subsection \<open>Init\<close>

text \<open>
  The loop of lines 30 to 36: split each entry, return the first error, append the
  candidate otherwise.
\<close>

fun parse_servers :: "string list \<Rightarrow> inetAddress list \<Rightarrow> error + inetAddress list" where
  "parse_servers [] addrs = Inr addrs"
| "parse_servers (server # rest) addrs =
     (case SplitHostPort server of
        Inl err \<Rightarrow> Inl err
      | Inr (h, p) \<Rightarrow> parse_servers rest (addrs @ [\<lparr>host = h, port = p, resolved = False\<rparr>]))"

text \<open>
  \<open>Init\<close> returns its error (\<open>None\<close> for \<open>nil\<close>), the provider and the world after the call.
\<close>

definition Init ::
  "DNSHostProvider \<Rightarrow> string list \<Rightarrow> world \<Rightarrow> error option \<times> DNSHostProvider \<times> world" where
  "Init hp srvs w =
     (case parse_servers srvs [] of
        Inl err \<Rightarrow> (Some err, hp, w)
      | Inr addrs \<Rightarrow>
          if length addrs = 0 then (Some (NoHostsForAddresses srvs), hp, w)
          else (case Shuffle addrs w of
                  (addrs', w') \<Rightarrow>
                    (None, hp\<lparr>servers := addrs', curr := - 1, last_ix := - 1\<rparr>, w')))"

subsection \<open>addr, resolve, Len, Next, Connected\<close>

definition addr :: "inetAddress \<Rightarrow> string" where
  "addr ia = JoinHostPort (host ia) (port ia)"

text \<open>Lines 67 to 70: the injected resolver, or \<open>net.LookupHost\<close> when none was injected.\<close>

definition effective_lookupHost ::
  "DNSHostProvider \<Rightarrow> world \<Rightarrow> string \<Rightarrow> error + string list" where
  "effective_lookupHost hp w = (case lookupHost hp of None \<Rightarrow> netLookupHost w | Some f \<Rightarrow> f)"

text \<open>
  \<open>resolve\<close> returns the candidate, the error (\<open>None\<close> for \<open>nil\<close>) and the world. Every
  call of the resolver function is recorded in \<open>lookups\<close>.
\<close>

definition resolve ::
  "DNSHostProvider \<Rightarrow> inetAddress \<Rightarrow> world \<Rightarrow> inetAddress \<times> error option \<times> world" where
  "resolve hp a w =
     (if resolved a then (a, None, w)
      else
        (let lookup = effective_lookupHost hp w;
             w1 = w\<lparr>lookups := lookups w @ [host a]\<rparr>
         in case lookup (host a) of
              Inl err \<Rightarrow> (a, Some err, w1)
            | Inr ips \<Rightarrow>
                if length ips = 0 then (a, Some (NoHostsForAddress (host a)), w1)
                else (case Shuffle ips w1 of
                        (ips', w2) \<Rightarrow>
                          (\<lparr>host = ips' ! 0, port = port a, resolved = True\<rparr>, None, w2))))"

definition Len :: "DNSHostProvider \<Rightarrow> int \<times> DNSHostProvider" where
  "Len hp = (int (length (servers hp)), hp)"

text \<open>
  \<open>Next\<close> returns either a panic or the pair (server, retryStart), with the provider and
  the world as the call leaves them. The remainder by a zero length panics before any
  field is written; the index expression \<open>hp.servers[hp.curr]\<close> panics, after the two
  assignments, when the cursor is not an index of the slice.
\<close>

definition Next ::
  "DNSHostProvider \<Rightarrow> world \<Rightarrow> (panic + string \<times> bool) \<times> DNSHostProvider \<times> world" where
  "Next hp w =
     (if length (servers hp) = 0 then (Inl DivideByZero, hp, w)
      else
        (let hp1 = hp\<lparr>curr := go_rem (curr hp + 1) (int (length (servers hp)))\<rparr>;
             retryStart = (curr hp1 = last_ix hp1);
             hp2 = (if last_ix hp1 = - 1 then hp1\<lparr>last_ix := 0\<rparr> else hp1)
         in if curr hp2 < 0 \<or> int (length (servers hp2)) \<le> curr hp2
              then (Inl IndexOutOfRange, hp2, w)
            else
              (case resolve hp2 (servers hp2 ! nat (curr hp2)) w of
                 (a, err, w1) \<Rightarrow>
                   (Inr (addr a, retryStart), hp2,
                    (case err of
                       None \<Rightarrow> w1
                     | Some e \<Rightarrow> Printf (host (servers hp2 ! nat (curr hp2))) e w1)))))"

definition Connected :: "DNSHostProvider \<Rightarrow> DNSHostProvider" where
  "Connected hp = hp\<lparr>last_ix := curr hp\<rparr>"

subsection \<open>Callers and states\<close>

text \<open>
  A caller that invokes \<open>Next\<close> \<open>n\<close> times in a row, with no other call in between, and
  collects what each call returned.
\<close>

fun Next_times ::
  "nat \<Rightarrow> DNSHostProvider \<Rightarrow> world \<Rightarrow> (panic + string \<times> bool) list \<times> DNSHostProvider \<times> world" where
  "Next_times 0 hp w = ([], hp, w)"
| "Next_times (Suc n) hp w =
     (case Next hp w of
        (r, hp1, w1) \<Rightarrow>
          (case Next_times n hp1 w1 of (rs, hp2, w2) \<Rightarrow> (r # rs, hp2, w2)))"

text \<open>The retryStart flag of each collected result (\<open>None\<close> where the call panicked).\<close>

definition retry_flags :: "(panic + string \<times> bool) list \<Rightarrow> bool option list" where
  "retry_flags rs = map (\<lambda>r. case r of Inl p \<Rightarrow> None | Inr (s, b) \<Rightarrow> Some b) rs"

text \<open>The candidate that line 35 builds from one well-formed entry of the input.\<close>

definition parsed :: "string \<Rightarrow> inetAddress" where
  "parsed s = (case projr (SplitHostPort s) of (h, p) \<Rightarrow> \<lparr>host = h, port = p, resolved = False\<rparr>)"

text \<open>
  The invariant of the data model: a non-empty sequence, and \<open>curr\<close> and \<open>last\<close> each -1
  or an index of it.
\<close>

definition hp_inv :: "DNSHostProvider \<Rightarrow> bool" where
  "hp_inv hp \<longleftrightarrow>
     0 < length (servers hp) \<and>
     (curr hp = - 1 \<or> (0 \<le> curr hp \<and> curr hp < int (length (servers hp)))) \<and>
     (last_ix hp = - 1 \<or> (0 \<le> last_ix hp \<and> last_ix hp < int (length (servers hp))))"

text \<open>
  The states a provider can be in once an \<open>Init\<close> has succeeded: the state that \<open>Init\<close>
  leaves (whatever the provider held before), and every state that \<open>Next\<close>, \<open>Connected\<close> or
  \<open>Len\<close> leads to from such a state. The world of each call is arbitrary: the random
  source and the answers of the resolver may differ from call to call.
\<close>

inductive reachable :: "DNSHostProvider \<Rightarrow> bool" where
  reach_Init: "Init hp0 srvs w = (None, hp, w') \<Longrightarrow> reachable hp"
| reach_Next: "reachable hp \<Longrightarrow> Next hp w = (r, hp', w') \<Longrightarrow> reachable hp'"
| reach_Connected: "reachable hp \<Longrightarrow> reachable (Connected hp)"
| reach_Len: "reachable hp \<Longrightarrow> Len hp = (n, hp') \<Longrightarrow> reachable hp'"

text \<open>
  The states of a provider on which no \<open>Init\<close> has succeeded: the freshly allocated one, and
  every state reached from such a state by an \<open>Init\<close> that returned an error or by any
  other call.
\<close>

inductive never_initialised :: "DNSHostProvider \<Rightarrow> bool" where
  fresh: "never_initialised (zero_provider f)"
| failed_Init: "never_initialised hp \<Longrightarrow> Init hp srvs w = (Some e, hp', w') \<Longrightarrow>
     never_initialised hp'"
| after_Next: "never_initialised hp \<Longrightarrow> Next hp w = (r, hp', w') \<Longrightarrow> never_initialised hp'"
| after_Connected: "never_initialised hp \<Longrightarrow> never_initialised (Connected hp)"
| after_Len: "never_initialised hp \<Longrightarrow> Len hp = (n, hp') \<Longrightarrow> never_initialised hp'"

subsection \<open>Concrete inputs\<close>

text \<open>
  A world whose random source draws 0, 1, 2, ... and whose system resolver knows no host,
  a resolver that maps every host name to itself as its single address (the scenario of
  the spec), one that knows the host \<open>a\<close> only, and one that always fails.
\<close>

definition world0 :: world where
  "world0 = \<lparr>rand_draws = (\<lambda>i. i), rand_pos = 0,
             netLookupHost = (\<lambda>h. Inl (LookupError h)), lookups = [], logged = []\<rparr>"

definition self_resolver :: "string \<Rightarrow> error + string list" where
  "self_resolver h = Inr [h]"

definition a_resolver :: "string \<Rightarrow> error + string list" where
  "a_resolver h = (if h = ''a'' then Inr [''10.0.0.1''] else Inl (LookupError h))"

definition failing_resolver :: "string \<Rightarrow> error + string list" where
  "failing_resolver h = Inl (LookupError h)"

definition zk3 :: "string list" where
  "zk3 = [''zk1:2181'', ''zk2:2181'', ''zk3:2181'']"

text \<open>
  The provider and the world after \<open>Init\<close> on the three servers of the spec's scenario, and
  after \<open>Init\<close> on the single server \<open>a:2181\<close> with the resolver that knows \<open>a\<close>.
\<close>

definition provider3 :: DNSHostProvider where
  "provider3 = fst (snd (Init (zero_provider (Some self_resolver)) zk3 world0))"

definition world3 :: world where
  "world3 = snd (snd (Init (zero_provider (Some self_resolver)) zk3 world0))"

definition provider_a :: DNSHostProvider where
  "provider_a = fst (snd (Init (zero_provider (Some a_resolver)) [''a:2181''] world0))"

definition world_a :: world where
  "world_a = snd (snd (Init (zero_provider (Some a_resolver)) [''a:2181''] world0))"

section \<open>Properties of the library functions\<close>

lemma IndexByteString_neg_iff: "IndexByteString s c < 0 \<longleftrightarrow> c \<notin> set s"
  by (induction s) (auto simp: Let_def)

lemma JoinHostPort_nonempty: "JoinHostPort h p \<noteq> []"
  by (simp add: JoinHostPort_def)

lemma JoinHostPort_plain: "CHR '':'' \<notin> set h \<Longrightarrow> JoinHostPort h p = h @ '':'' @ p"
  using IndexByteString_neg_iff [of h "CHR '':''"] by (simp add: JoinHostPort_def)

lemma Intn_less: "0 < n \<Longrightarrow> fst (Intn n w) < n"
  by (simp add: Intn_def)

lemma Intn_world:
  "lookups (snd (Intn n w)) = lookups w"
  "logged (snd (Intn n w)) = logged w"
  "netLookupHost (snd (Intn n w)) = netLookupHost w"
  by (simp_all add: Intn_def)

lemma swap_length: "length (swap i j xs) = length xs"
  by (simp add: swap_def)

lemma swap_mset: "i < length xs \<Longrightarrow> j < length xs \<Longrightarrow> mset (swap i j xs) = mset xs"
  unfolding swap_def by (rule mset_swap)

lemma shuffle_from_length: "length (fst (shuffle_from i xs w)) = length xs"
  by (induction i arbitrary: xs w) (simp_all add: split_def swap_length)

lemma shuffle_from_mset: "i < length xs \<Longrightarrow> mset (fst (shuffle_from i xs w)) = mset xs"
proof (induction i arbitrary: xs w)
  case 0
  show ?case by simp
next
  case (Suc i)
  have j: "fst (Intn (Suc (Suc i)) w) < length xs"
    using Intn_less [of "Suc (Suc i)" w] Suc.prems by simp
  have "mset (fst (shuffle_from i (swap (Suc i) (fst (Intn (Suc (Suc i)) w)) xs)
                     (snd (Intn (Suc (Suc i)) w))))
        = mset (swap (Suc i) (fst (Intn (Suc (Suc i)) w)) xs)"
    using Suc.prems by (intro Suc.IH) (simp add: swap_length)
  also have "\<dots> = mset xs"
    using Suc.prems j by (simp add: swap_mset)
  finally show ?case by (simp add: split_def)
qed

lemma shuffle_from_world:
  "lookups (snd (shuffle_from i xs w)) = lookups w"
  "logged (snd (shuffle_from i xs w)) = logged w"
  "netLookupHost (snd (shuffle_from i xs w)) = netLookupHost w"
  by (induction i arbitrary: xs w) (simp_all add: split_def Intn_world)

lemma Shuffle_length: "length (fst (Shuffle xs w)) = length xs"
  by (simp add: Shuffle_def shuffle_from_length)

lemma Shuffle_mset: "mset (fst (Shuffle xs w)) = mset xs"
proof (cases xs)
  case Nil
  then show ?thesis by (simp add: Shuffle_def)
next
  case (Cons x ys)
  then show ?thesis by (simp add: Shuffle_def shuffle_from_mset)
qed

lemma Shuffle_world:
  "lookups (snd (Shuffle xs w)) = lookups w"
  "logged (snd (Shuffle xs w)) = logged w"
  "netLookupHost (snd (Shuffle xs w)) = netLookupHost w"
  by (simp_all add: Shuffle_def shuffle_from_world)

section \<open>Init\<close>

lemma parse_servers_Inr:
  "\<forall>s\<in>set srvs. \<exists>h p. SplitHostPort s = Inr (h, p) \<Longrightarrow>
   parse_servers srvs acc = Inr (acc @ map parsed srvs)"
proof (induction srvs arbitrary: acc)
  case Nil
  show ?case by simp
next
  case (Cons s srvs)
  from Cons.prems obtain h p where hp: "SplitHostPort s = Inr (h, p)" by auto
  have "parse_servers srvs (acc @ [parsed s]) = Inr ((acc @ [parsed s]) @ map parsed srvs)"
    using Cons.prems by (intro Cons.IH) simp
  with hp show ?case by (simp add: parsed_def)
qed

lemma parse_servers_Inl:
  "\<exists>s\<in>set srvs. \<exists>e. SplitHostPort s = Inl e \<Longrightarrow> \<exists>e. parse_servers srvs acc = Inl e"
proof (induction srvs arbitrary: acc)
  case Nil
  then show ?case by simp
next
  case (Cons s srvs)
  show ?case
  proof (cases "SplitHostPort s")
    case (Inl e)
    then show ?thesis by simp
  next
    case (Inr hp)
    with Cons.prems have "\<exists>s\<in>set srvs. \<exists>e. SplitHostPort s = Inl e" by auto
    from Cons.IH [OF this] Inr show ?thesis by (simp add: split_def)
  qed
qed

lemma Init_failure:
  assumes "srvs = [] \<or> (\<exists>s\<in>set srvs. \<exists>e. SplitHostPort s = Inl e)"
  shows "\<exists>err. Init hp srvs w = (Some err, hp, w)"
proof (cases "srvs = []")
  case True
  then show ?thesis by (simp add: Init_def)
next
  case False
  with assms have "\<exists>s\<in>set srvs. \<exists>e. SplitHostPort s = Inl e" by simp
  from parse_servers_Inl [OF this, of "[]"] show ?thesis by (auto simp: Init_def)
qed

lemma Init_success:
  assumes "srvs \<noteq> []" and "\<forall>s\<in>set srvs. \<exists>h p. SplitHostPort s = Inr (h, p)"
  shows "Init hp srvs w =
           (None,
            hp\<lparr>servers := fst (Shuffle (map parsed srvs) w), curr := - 1, last_ix := - 1\<rparr>,
            snd (Shuffle (map parsed srvs) w))"
  using assms parse_servers_Inr [OF assms(2), of "[]"] by (simp add: Init_def split_def)

lemma parse_servers_unresolved:
  "parse_servers srvs acc = Inr as \<Longrightarrow> \<forall>a\<in>set acc. \<not> resolved a \<Longrightarrow>
   \<forall>a\<in>set as. \<not> resolved a"
proof (induction srvs arbitrary: acc)
  case Nil
  then show ?case by simp
next
  case (Cons s srvs)
  show ?case
  proof (cases "SplitHostPort s")
    case (Inl e)
    with Cons.prems show ?thesis by simp
  next
    case (Inr hp)
    obtain h p where hp: "hp = (h, p)" by (cases hp)
    from Cons.prems(1) Inr hp
    have "parse_servers srvs (acc @ [\<lparr>host = h, port = p, resolved = False\<rparr>]) = Inr as"
      by simp
    moreover have "\<forall>a\<in>set (acc @ [\<lparr>host = h, port = p, resolved = False\<rparr>]). \<not> resolved a"
      using Cons.prems(2) by simp
    ultimately show ?thesis
      by (rule Cons.IH)
  qed
qed

lemma Init_None_cases:
  assumes "Init hp0 srvs w = (None, hp, w')"
  obtains addrs where "parse_servers srvs [] = Inr addrs" and "addrs \<noteq> []"
    and "hp = hp0\<lparr>servers := fst (Shuffle addrs w), curr := - 1, last_ix := - 1\<rparr>"
    and "w' = snd (Shuffle addrs w)"
proof (cases "parse_servers srvs []")
  case (Inl e)
  with assms show ?thesis by (simp add: Init_def)
next
  case (Inr addrs)
  show ?thesis
  proof (cases "addrs = []")
    case True
    with assms Inr show ?thesis by (simp add: Init_def)
  next
    case False
    with assms Inr that [of addrs] show ?thesis
      by (simp add: Init_def split_def)
  qed
qed

lemma Init_None_state:
  assumes "Init hp0 srvs w = (None, hp, w')"
  shows "0 < length (servers hp) \<and> curr hp = - 1 \<and> last_ix hp = - 1 \<and>
         (\<forall>a\<in>set (servers hp). \<not> resolved a) \<and> lookupHost hp = lookupHost hp0"
proof -
  from assms obtain addrs where p: "parse_servers srvs [] = Inr addrs" and ne: "addrs \<noteq> []"
    and hp: "hp = hp0\<lparr>servers := fst (Shuffle addrs w), curr := - 1, last_ix := - 1\<rparr>"
    by (rule Init_None_cases)
  have un: "\<forall>a\<in>set addrs. \<not> resolved a"
    using parse_servers_unresolved [OF p] by simp
  have "set (fst (Shuffle addrs w)) = set addrs"
    using Shuffle_mset [of addrs w] by (rule mset_eq_setD)
  with un have un': "\<forall>a\<in>set (fst (Shuffle addrs w)). \<not> resolved a"
    by simp
  have "0 < length (fst (Shuffle addrs w))"
    using ne by (simp add: Shuffle_length)
  with un' show ?thesis
    by (simp add: hp)
qed

text \<open>
  C4. \<open>Init\<close> is atomic on error: for the empty input list, and for every input list with an
  entry that \<open>net.SplitHostPort\<close> rejects, \<open>Init\<close> returns an error and leaves the provider
  (servers, curr, last) exactly as it was; the world is untouched as well.
\<close>

theorem C4_Init_atomic_on_error:
  assumes "srvs = [] \<or> (\<exists>s\<in>set srvs. \<exists>e. SplitHostPort s = Inl e)"
  shows "\<exists>err. Init hp srvs w = (Some err, hp, w)"
  using assms by (rule Init_failure)

theorem C4_Init_atomic_on_error_witness:
  "([''zk1:2181'', ''badhost''] = [] \<or>
      (\<exists>s\<in>set [''zk1:2181'', ''badhost'']. \<exists>e. SplitHostPort s = Inl e)) \<and>
   hp_inv provider3 \<and>
   (\<exists>err. Init provider3 [''zk1:2181'', ''badhost''] world3 = (Some err, provider3, world3))"
proof -
  have bad: "SplitHostPort ''badhost'' = Inl (AddrError MissingPort ''badhost'')"
    by code_simp
  have h: "[''zk1:2181'', ''badhost''] = [] \<or>
      (\<exists>s\<in>set [''zk1:2181'', ''badhost'']. \<exists>e. SplitHostPort s = Inl e)"
    using bad by simp
  have inv: "hp_inv provider3"
    by code_simp
  from C4_Init_atomic_on_error [OF h, of provider3 world3] h inv show ?thesis
    by blast
qed

lemma zk3_map:
  "map SplitHostPort zk3 =
     [Inr (''zk1'', ''2181''), Inr (''zk2'', ''2181''), Inr (''zk3'', ''2181'')]"
proof -
  have "SplitHostPort ''zk1:2181'' = Inr (''zk1'', ''2181'')"
    and "SplitHostPort ''zk2:2181'' = Inr (''zk2'', ''2181'')"
    and "SplitHostPort ''zk3:2181'' = Inr (''zk3'', ''2181'')"
    by code_simp+
  then show ?thesis by (simp add: zk3_def)
qed

lemma zk3_splits: "\<forall>s\<in>set zk3. \<exists>h p. SplitHostPort s = Inr (h, p)"
  using zk3_map by (simp add: zk3_def)

lemma badhost_rejected: "SplitHostPort ''badhost'' = Inl (AddrError MissingPort ''badhost'')"
  by code_simp

text \<open>
  C6. When every entry of a non-empty input list splits as host:port, \<open>Init\<close> succeeds; the
  new sequence is a permutation of the candidates parsed from the input, in place of
  whatever the provider held before, each with \<open>resolved = false\<close>; \<open>curr\<close> and \<open>last\<close>
  are both -1; and no resolver was invoked during the call (the record of lookups is the
  one from before the call).
\<close>

theorem C6_Init_success:
  assumes "srvs \<noteq> []" and "\<forall>s\<in>set srvs. \<exists>h p. SplitHostPort s = Inr (h, p)"
  shows "\<exists>hp' w'. Init hp srvs w = (None, hp', w') \<and>
           mset (servers hp') = mset (map parsed srvs) \<and>
           (\<forall>a\<in>set (servers hp'). \<not> resolved a) \<and>
           curr hp' = - 1 \<and> last_ix hp' = - 1 \<and>
           lookups w' = lookups w"
proof -
  let ?hp' = "hp\<lparr>servers := fst (Shuffle (map parsed srvs) w), curr := - 1, last_ix := - 1\<rparr>"
  let ?w' = "snd (Shuffle (map parsed srvs) w)"
  have i: "Init hp srvs w = (None, ?hp', ?w')"
    using assms by (rule Init_success)
  have "mset (servers ?hp') = mset (map parsed srvs)"
    by (simp add: Shuffle_mset)
  moreover have "\<forall>a\<in>set (servers ?hp'). \<not> resolved a"
    using Init_None_state [OF i] by simp
  moreover have "curr ?hp' = - 1" and "last_ix ?hp' = - 1"
    by simp_all
  moreover have "lookups ?w' = lookups w"
    by (simp add: Shuffle_world)
  ultimately show ?thesis
    using i by blast
qed

theorem C6_Init_success_witness:
  "zk3 \<noteq> [] \<and>
   map SplitHostPort zk3 =
     [Inr (''zk1'', ''2181''), Inr (''zk2'', ''2181''), Inr (''zk3'', ''2181'')] \<and>
   (\<exists>hp' w'. Init provider_a zk3 world0 = (None, hp', w') \<and>
      mset (servers hp') = mset (map parsed zk3) \<and>
      (\<forall>a\<in>set (servers hp'). \<not> resolved a) \<and>
      curr hp' = - 1 \<and> last_ix hp' = - 1 \<and>
      lookups w' = lookups world0)"
proof -
  have ne: "zk3 \<noteq> []"
    by (simp add: zk3_def)
  from C6_Init_success [OF ne zk3_splits, of provider_a world0] ne zk3_map
  show ?thesis by blast
qed

text \<open>
  C9, as the code has it. For every non-empty input list whose entries all split as
  host:port, \<open>Init\<close> succeeds and a following \<open>Len\<close> returns the length of the input list.
  On every provider state \<open>st\<close>, whatever calls came before, \<open>Len\<close> returns the length of
  the sequence and the provider it was given, unchanged in every field. (An entry that
  does not split makes \<open>Init\<close> fail, see C4.)
\<close>

theorem C9_Init_then_Len:
  assumes "srvs \<noteq> []" and "\<forall>s\<in>set srvs. \<exists>h p. SplitHostPort s = Inr (h, p)"
  shows "(\<exists>hp' w'. Init hp srvs w = (None, hp', w') \<and> Len hp' = (int (length srvs), hp')) \<and>
         Len st = (int (length (servers st)), st) \<and>
         snd (Len st) = st"
proof -
  have "Init hp srvs w =
          (None,
           hp\<lparr>servers := fst (Shuffle (map parsed srvs) w), curr := - 1, last_ix := - 1\<rparr>,
           snd (Shuffle (map parsed srvs) w))"
    using assms by (rule Init_success)
  then have "\<exists>hp' w'. Init hp srvs w = (None, hp', w') \<and> Len hp' = (int (length srvs), hp')"
    by (simp add: Len_def Shuffle_length)
  moreover have "Len st = (int (length (servers st)), st)"
    by (simp add: Len_def)
  ultimately show ?thesis
    by simp
qed

theorem C9_Init_then_Len_witness:
  "zk3 \<noteq> [] \<and>
   map SplitHostPort zk3 =
     [Inr (''zk1'', ''2181''), Inr (''zk2'', ''2181''), Inr (''zk3'', ''2181'')] \<and>
   (\<exists>hp' w'. Init (zero_provider None) zk3 world0 = (None, hp', w') \<and> Len hp' = (3, hp')) \<and>
   curr (Connected (fst (snd (Next_times 2 provider3 world3)))) = 1 \<and>
   last_ix (Connected (fst (snd (Next_times 2 provider3 world3)))) = 1 \<and>
   Len (Connected (fst (snd (Next_times 2 provider3 world3)))) =
     (3, Connected (fst (snd (Next_times 2 provider3 world3))))"
proof -
  let ?st = "Connected (fst (snd (Next_times 2 provider3 world3)))"
  have ne: "zk3 \<noteq> []"
    by (simp add: zk3_def)
  have n: "int (length zk3) = 3"
    by (simp add: zk3_def)
  have v: "curr ?st = 1" "last_ix ?st = 1" "int (length (servers ?st)) = 3"
    by code_simp+
  from C9_Init_then_Len [OF ne zk3_splits, of "zero_provider None" world0 ?st] ne zk3_map n v
  show ?thesis by simp
qed

text \<open>
  The claim C9 as written fails: the list holding the single entry \<open>badhost\<close> is not empty,
  and \<open>Init\<close> returns the error of \<open>net.SplitHostPort\<close> for it.
\<close>

theorem C9_nonempty_list_counterexample:
  "[''badhost''] \<noteq> [] \<and>
   fst (Init (zero_provider None) [''badhost''] world0) = Some (AddrError MissingPort ''badhost'')"
  using badhost_rejected by (simp add: Init_def)

section \<open>Next, Connected and Len\<close>

lemma go_rem_nonneg: "0 \<le> x \<Longrightarrow> go_rem x (int n) = x mod int n"
  by (simp add: go_rem_def)

lemma Next_empty: "servers hp = [] \<Longrightarrow> Next hp w = (Inl DivideByZero, hp, w)"
  by (simp add: Next_def)

lemma Next_servers: "servers (fst (snd (Next hp w))) = servers hp"
  by (simp add: Next_def Let_def split_def)

lemma Next_lookupHost: "lookupHost (fst (snd (Next hp w))) = lookupHost hp"
  by (simp add: Next_def Let_def split_def)

lemma Next_last_ix:
  "last_ix (fst (snd (Next hp w))) =
     (if servers hp = [] then last_ix hp else if last_ix hp = - 1 then 0 else last_ix hp)"
  by (simp add: Next_def Let_def split_def)

lemma Next_curr:
  "curr (fst (snd (Next hp w))) =
     (if servers hp = [] then curr hp
      else go_rem (curr hp + 1) (int (length (servers hp))))"
  by (simp add: Next_def Let_def split_def)

lemma Next_curr_mod:
  assumes "servers hp \<noteq> []" and "- 1 \<le> curr hp"
  shows "curr (fst (snd (Next hp w))) = (curr hp + 1) mod int (length (servers hp))"
  using assms by (simp add: Next_curr go_rem_nonneg)

lemma mod_index:
  assumes "xs \<noteq> []" and "- 1 \<le> (c::int)"
  shows "0 \<le> (c + 1) mod int (length xs)" and "(c + 1) mod int (length xs) < int (length xs)"
  using assms by simp_all

lemma Next_result:
  assumes "servers hp \<noteq> []" and "- 1 \<le> curr hp"
  shows "fst (Next hp w) =
           Inr (addr (fst (resolve (fst (snd (Next hp w)))
                             (servers hp ! nat ((curr hp + 1) mod int (length (servers hp)))) w)),
                (curr hp + 1) mod int (length (servers hp)) = last_ix hp)"
proof -
  let ?c = "(curr hp + 1) mod int (length (servers hp))"
  have c: "go_rem (curr hp + 1) (int (length (servers hp))) = ?c"
    using assms(2) by (simp add: go_rem_nonneg)
  have "\<not> ?c < 0" and "\<not> int (length (servers hp)) \<le> ?c"
    using mod_index [OF assms] by linarith+
  then have r: "(?c < 0) = False" "(int (length (servers hp)) \<le> ?c) = False"
    by simp_all
  show ?thesis
    using assms(1) by (simp add: Next_def Let_def split_def c r)
qed

lemma resolve_failure:
  assumes "\<not> resolved a"
    and "(\<exists>e. effective_lookupHost hp w (host a) = Inl e) \<or>
         effective_lookupHost hp w (host a) = Inr []"
  shows "fst (resolve hp a w) = a"
  using assms by (auto simp: resolve_def Let_def)

lemma effective_lookupHost_Next:
  "effective_lookupHost (fst (snd (Next hp w))) w = effective_lookupHost hp w"
  by (simp add: effective_lookupHost_def Next_lookupHost)

lemma Init_curr:
  "curr (fst (snd (Init hp srvs w))) = (if fst (Init hp srvs w) = None then - 1 else curr hp)"
  by (simp add: Init_def split_def split: sum.splits)

lemma Init_last_ix:
  "last_ix (fst (snd (Init hp srvs w))) =
     (if fst (Init hp srvs w) = None then - 1 else last_ix hp)"
  by (simp add: Init_def split_def split: sum.splits)

lemma reachable_facts:
  "reachable hp \<Longrightarrow> hp_inv hp \<and> (\<forall>a\<in>set (servers hp). \<not> resolved a)"
proof (induction rule: reachable.induct)
  case (reach_Init hp0 srvs w hp w')
  from Init_None_state [OF reach_Init] show ?case
    by (simp add: hp_inv_def)
next
  case (reach_Next hp w r hp' w')
  then have inv: "hp_inv hp" and un: "\<forall>a\<in>set (servers hp). \<not> resolved a"
    by simp_all
  from reach_Next.hyps(2) have hp': "hp' = fst (snd (Next hp w))"
    by simp
  from inv have ne: "servers hp \<noteq> []" and lo: "- 1 \<le> curr hp"
    by (auto simp: hp_inv_def)
  have c: "curr hp' = (curr hp + 1) mod int (length (servers hp))"
    unfolding hp' using ne lo by (rule Next_curr_mod)
  have "0 \<le> curr hp'" and "curr hp' < int (length (servers hp))"
    unfolding c using mod_index [OF ne lo] by simp_all
  moreover have "last_ix hp' = (if last_ix hp = - 1 then 0 else last_ix hp)"
    unfolding hp' using ne by (simp add: Next_last_ix)
  moreover have "servers hp' = servers hp"
    unfolding hp' by (rule Next_servers)
  ultimately show ?case
    using inv un by (auto simp: hp_inv_def)
next
  case (reach_Connected hp)
  then show ?case
    by (auto simp: hp_inv_def Connected_def)
next
  case (reach_Len hp n hp')
  then show ?case
    by (auto simp: Len_def)
qed

lemma never_initialised_empty: "never_initialised hp \<Longrightarrow> servers hp = []"
proof (induction rule: never_initialised.induct)
  case (fresh f)
  show ?case by (simp add: zero_provider_def)
next
  case (failed_Init hp srvs w e hp' w')
  then show ?case
    by (auto simp: Init_def split_def split: sum.splits if_splits)
next
  case (after_Next hp w r hp' w')
  then show ?case
    by (simp add: Next_empty)
next
  case (after_Connected hp)
  then show ?case by (simp add: Connected_def)
next
  case (after_Len hp n hp')
  then show ?case by (auto simp: Len_def)
qed

lemma reachable_after_Next: "reachable hp \<Longrightarrow> reachable (fst (snd (Next hp w)))"
  by (rule reach_Next [of hp w "fst (Next hp w)" _ "snd (snd (Next hp w))"]) simp_all

lemma reachable_provider3: "reachable provider3"
proof -
  obtain e hp w where i: "Init (zero_provider (Some self_resolver)) zk3 world0 = (e, hp, w)"
    by (cases "Init (zero_provider (Some self_resolver)) zk3 world0")
  have ne: "zk3 \<noteq> []" by (simp add: zk3_def)
  from Init_success [OF ne zk3_splits, of "zero_provider (Some self_resolver)" world0] i
  have "e = None" by simp
  with i have "reachable hp" by (auto intro: reach_Init)
  with i show ?thesis by (simp add: provider3_def)
qed

text \<open>
  C7. In every state reachable from a successful \<open>Init\<close> by any sequence of \<open>Next\<close>,
  \<open>Connected\<close> and \<open>Len\<close> calls, the server sequence is non-empty, and \<open>curr\<close> and \<open>last\<close>
  are each either -1 or an index of the sequence.
\<close>

theorem C7_reachable_invariant:
  assumes "reachable hp"
  shows "servers hp \<noteq> [] \<and>
         (curr hp = - 1 \<or> (0 \<le> curr hp \<and> curr hp < int (length (servers hp)))) \<and>
         (last_ix hp = - 1 \<or> (0 \<le> last_ix hp \<and> last_ix hp < int (length (servers hp))))"
  using reachable_facts [OF assms] by (simp add: hp_inv_def)

theorem C7_reachable_invariant_witness:
  "reachable (Connected (fst (snd (Next provider3 world3)))) \<and>
   servers (Connected (fst (snd (Next provider3 world3)))) \<noteq> [] \<and>
   curr (Connected (fst (snd (Next provider3 world3)))) = 0 \<and>
   last_ix (Connected (fst (snd (Next provider3 world3)))) = 0 \<and>
   length (servers (Connected (fst (snd (Next provider3 world3))))) = 3"
proof -
  let ?hp = "Connected (fst (snd (Next provider3 world3)))"
  have "reachable (fst (snd (Next provider3 world3)))"
    using reachable_provider3 by (rule reachable_after_Next)
  then have r: "reachable ?hp"
    by (rule reach_Connected)
  have v: "curr ?hp = 0" "last_ix ?hp = 0" "length (servers ?hp) = 3"
    by code_simp+
  from C7_reachable_invariant [OF r] r v show ?thesis
    by simp
qed

text \<open>
  C10. On a provider whose server sequence is empty (one on which \<open>Init\<close> was never called,
  or on which every \<open>Init\<close> returned an error) \<open>Next\<close> has no result: the remainder by
  the zero length panics, before any field is written. In every state reachable from a
  successful \<open>Init\<close> the call returns a server and a flag; so a call of \<open>Next\<close> that
  panics is never one made after a successful \<open>Init\<close>.
\<close>

theorem C10_Next_partial:
  "(servers hp = [] \<longrightarrow> Next hp w = (Inl DivideByZero, hp, w)) \<and>
   (never_initialised hp \<longrightarrow> Next hp w = (Inl DivideByZero, hp, w)) \<and>
   (reachable hp \<longrightarrow> (\<exists>s b. fst (Next hp w) = Inr (s, b))) \<and>
   (\<forall>p. fst (Next hp w) = Inl p \<longrightarrow> \<not> reachable hp)"
proof -
  have total: "\<exists>s b. fst (Next hp w) = Inr (s, b)" if "reachable hp"
  proof -
    from reachable_facts [OF that] have "servers hp \<noteq> []" and "- 1 \<le> curr hp"
      by (auto simp: hp_inv_def)
    from Next_result [OF this] show ?thesis
      by blast
  qed
  have "\<not> reachable hp" if "fst (Next hp w) = Inl p" for p
    using total that by auto
  with total show ?thesis
    by (auto simp: Next_empty never_initialised_empty)
qed

theorem C10_Next_partial_witness:
  "servers (zero_provider None) = [] \<and>
   never_initialised (fst (snd (Init (zero_provider None) [''badhost''] world0))) \<and>
   Next (zero_provider None) world0 = (Inl DivideByZero, zero_provider None, world0) \<and>
   Next (fst (snd (Init (zero_provider None) [''badhost''] world0))) world0 =
     (Inl DivideByZero, fst (snd (Init (zero_provider None) [''badhost''] world0)), world0) \<and>
   reachable provider3 \<and>
   fst (Next provider3 world3) = Inr (''zk3:2181'', False)"
proof -
  let ?hp = "fst (snd (Init (zero_provider None) [''badhost''] world0))"
  have e: "servers (zero_provider None) = []"
    by (simp add: zero_provider_def)
  have "\<exists>err. Init (zero_provider None) [''badhost''] world0 =
          (Some err, zero_provider None, world0)"
    using badhost_rejected by (intro Init_failure) simp
  then have hp: "?hp = zero_provider None"
    by auto
  have n: "never_initialised ?hp"
    unfolding hp by (rule fresh)
  have v: "fst (Next provider3 world3) = Inr (''zk3:2181'', False)"
    by code_simp
  from C10_Next_partial [of "zero_provider None" world0] C10_Next_partial [of ?hp world0]
    C10_Next_partial [of provider3 world3] e n v reachable_provider3
  show ?thesis
    by simp
qed

text \<open>
  C3, as the code has it. In every provider state with a non-empty sequence of length N
  (and a cursor that is not below -1, as in every state the operations produce), one
  \<open>Next\<close> call sets \<open>curr\<close> to (old \<open>curr\<close> + 1) mod N, returns retryStart equal to
  (new \<open>curr\<close> = \<open>last\<close> as it was before the call), and sets \<open>last\<close> to 0 if it was -1,
  leaving it alone otherwise. \<open>Connected\<close> and \<open>Len\<close> do not change \<open>curr\<close>, nor does an
  \<open>Init\<close> that returns an error; a successful \<open>Init\<close> resets \<open>curr\<close> to -1.
\<close>

theorem C3_Next_cursor:
  assumes "servers hp \<noteq> []" and "- 1 \<le> curr hp"
  shows "(\<exists>s hp' w'.
            Next hp w =
              (Inr (s, (curr hp + 1) mod int (length (servers hp)) = last_ix hp), hp', w') \<and>
            curr hp' = (curr hp + 1) mod int (length (servers hp)) \<and>
            last_ix hp' = (if last_ix hp = - 1 then 0 else last_ix hp) \<and>
            servers hp' = servers hp) \<and>
         curr (Connected hp) = curr hp \<and>
         curr (snd (Len hp)) = curr hp \<and>
         curr (fst (snd (Init hp srvs w0))) =
           (if fst (Init hp srvs w0) = None then - 1 else curr hp)"
proof -
  obtain r hp' w' where n: "Next hp w = (r, hp', w')"
    by (cases "Next hp w")
  then have hp': "hp' = fst (snd (Next hp w))" and r: "r = fst (Next hp w)"
    by simp_all
  have "\<exists>s. r = Inr (s, (curr hp + 1) mod int (length (servers hp)) = last_ix hp)"
    unfolding r using Next_result [OF assms, of w] by blast
  moreover have "curr hp' = (curr hp + 1) mod int (length (servers hp))"
    unfolding hp' using assms by (rule Next_curr_mod)
  moreover have "last_ix hp' = (if last_ix hp = - 1 then 0 else last_ix hp)"
    unfolding hp' using assms(1) by (simp add: Next_last_ix)
  moreover have "servers hp' = servers hp"
    unfolding hp' by (rule Next_servers)
  ultimately have "\<exists>s hp' w'.
      Next hp w =
        (Inr (s, (curr hp + 1) mod int (length (servers hp)) = last_ix hp), hp', w') \<and>
      curr hp' = (curr hp + 1) mod int (length (servers hp)) \<and>
      last_ix hp' = (if last_ix hp = - 1 then 0 else last_ix hp) \<and>
      servers hp' = servers hp"
    using n by blast
  moreover have "curr (Connected hp) = curr hp"
    by (simp add: Connected_def)
  moreover have "curr (snd (Len hp)) = curr hp"
    by (simp add: Len_def)
  moreover note Init_curr [of hp srvs w0]
  ultimately show ?thesis
    by blast
qed

lemma provider3_values:
  "length (servers provider3) = 3" "curr provider3 = - 1" "last_ix provider3 = - 1"
  by code_simp+

theorem C3_Next_cursor_witness:
  "servers provider3 \<noteq> [] \<and> - 1 \<le> curr provider3 \<and>
   (\<exists>s hp' w'. Next provider3 world3 = (Inr (s, False), hp', w') \<and>
      curr hp' = 0 \<and> last_ix hp' = 0 \<and> servers hp' = servers provider3) \<and>
   curr (Connected provider3) = - 1 \<and>
   curr (snd (Len provider3)) = - 1 \<and>
   curr (fst (snd (Init provider3 [''badhost''] world3))) = - 1"
proof -
  have h1: "servers provider3 \<noteq> []"
    using provider3_values(1) by auto
  have h2: "- 1 \<le> curr provider3"
    by (simp add: provider3_values)
  from C3_Next_cursor [OF h1 h2, of world3 "[''badhost'']" world3] h1 h2
  show ?thesis
    by (simp add: provider3_values)
qed

text \<open>
  The last clause of C3 as written fails: \<open>Init\<close> is a call other than \<open>Next\<close>, and on a
  provider whose cursor stands at 0 (after \<open>Init\<close> and one \<open>Next\<close>) a second successful
  \<open>Init\<close> changes \<open>curr\<close> to -1.
\<close>

theorem C3_Init_changes_curr_counterexample:
  "length (servers (fst (snd (Next provider3 world3)))) = 3 \<and>
   curr (fst (snd (Next provider3 world3))) = 0 \<and>
   fst (Init (fst (snd (Next provider3 world3))) zk3 world0) = None \<and>
   curr (fst (snd (Init (fst (snd (Next provider3 world3))) zk3 world0))) = - 1"
proof -
  have "length (servers (fst (snd (Next provider3 world3)))) = 3"
    by code_simp
  moreover have "curr (fst (snd (Next provider3 world3))) = 0"
    by code_simp
  moreover have "fst (Init (fst (snd (Next provider3 world3))) zk3 world0) = None"
    by code_simp
  moreover have "curr (fst (snd (Init (fst (snd (Next provider3 world3))) zk3 world0))) = - 1"
    by code_simp
  ultimately show ?thesis
    by blast
qed

text \<open>
  C8, as the code has it. \<open>Connected\<close> sets \<open>last\<close> to the current value of \<open>curr\<close> and
  changes nothing else: the server sequence, its entries, \<open>curr\<close> and the injected resolver
  are as before. \<open>Len\<close> changes nothing. \<open>Next\<close> changes \<open>last\<close> only by promoting it from
  -1 to 0. An \<open>Init\<close> that returns an error leaves \<open>last\<close> alone, and a successful \<open>Init\<close>
  resets it to -1.
\<close>

theorem C8_Connected_frame:
  "Connected hp = hp\<lparr>last_ix := curr hp\<rparr> \<and>
   last_ix (Connected hp) = curr hp \<and>
   curr (Connected hp) = curr hp \<and>
   servers (Connected hp) = servers hp \<and>
   lookupHost (Connected hp) = lookupHost hp \<and>
   snd (Len hp) = hp \<and>
   last_ix (fst (snd (Next hp w))) =
     (if servers hp = [] then last_ix hp else if last_ix hp = - 1 then 0 else last_ix hp) \<and>
   last_ix (fst (snd (Init hp srvs w))) =
     (if fst (Init hp srvs w) = None then - 1 else last_ix hp)"
  using Next_last_ix [of hp w] Init_last_ix [of hp srvs w]
  by (simp add: Connected_def Len_def)

theorem C8_Connected_frame_witness:
  "last_ix (Connected (fst (snd (Next provider3 world3)))) = 0 \<and>
   curr (Connected (fst (snd (Next provider3 world3)))) = 0 \<and>
   servers (Connected (fst (snd (Next provider3 world3)))) = servers provider3 \<and>
   snd (Len provider3) = provider3 \<and>
   last_ix (fst (snd (Next provider3 world3))) = 0 \<and>
   last_ix (fst (snd (Init provider3 [''badhost''] world3))) = - 1"
proof -
  have c: "curr (fst (snd (Next provider3 world3))) = 0"
    by code_simp
  have f: "fst (Init provider3 [''badhost''] world3) = Some (AddrError MissingPort ''badhost'')"
    using badhost_rejected by (simp add: Init_def)
  have ne: "servers provider3 \<noteq> []"
    using provider3_values(1) by auto
  from C8_Connected_frame [of "fst (snd (Next provider3 world3))" world3 "[]"]
    C8_Connected_frame [of provider3 world3 "[''badhost'']"] c f ne
  show ?thesis
    by (simp add: provider3_values Next_servers)
qed

text \<open>
  The last clause of C8 as written fails: \<open>Init\<close> is an operation other than \<open>Connected\<close>
  and \<open>Next\<close>, and it moves \<open>last\<close>. After \<open>Init\<close>, two \<open>Next\<close> calls and \<open>Connected\<close>,
  \<open>last\<close> is 1; a second successful \<open>Init\<close> makes it -1.
\<close>

theorem C8_Init_moves_last_counterexample:
  "last_ix (Connected (fst (snd (Next_times 2 provider3 world3)))) = 1 \<and>
   fst (Init (Connected (fst (snd (Next_times 2 provider3 world3)))) [''a:2181''] world0) = None \<and>
   last_ix (fst (snd (Init (Connected (fst (snd (Next_times 2 provider3 world3))))
                        [''a:2181''] world0))) = - 1"
proof -
  have "last_ix (Connected (fst (snd (Next_times 2 provider3 world3)))) = 1"
    by code_simp
  moreover
  have "fst (Init (Connected (fst (snd (Next_times 2 provider3 world3)))) [''a:2181''] world0)
          = None"
    by code_simp
  moreover
  have "last_ix (fst (snd (Init (Connected (fst (snd (Next_times 2 provider3 world3))))
                             [''a:2181''] world0))) = - 1"
    by code_simp
  ultimately show ?thesis
    by blast
qed

text \<open>
  C5. When the candidate that \<open>Next\<close> lands on is not resolved and the lookup of its host
  fails, or succeeds with no address, \<open>Next\<close> raises nothing: it returns the candidate as
  it stands in the sequence, joined as host:port (a non-empty string; plainly
  \<open>host:port\<close> when the host holds no colon), and the candidate in the sequence is still
  not marked resolved. The hypotheses on the state hold in every state reachable from a
  successful \<open>Init\<close>.
\<close>

theorem C5_Next_lookup_failure:
  assumes "servers hp \<noteq> []" and "- 1 \<le> curr hp"
    and "a = servers hp ! nat ((curr hp + 1) mod int (length (servers hp)))"
    and "\<not> resolved a"
    and "(\<exists>e. effective_lookupHost hp w (host a) = Inl e) \<or>
         effective_lookupHost hp w (host a) = Inr []"
  shows "\<exists>b hp' w'.
           Next hp w = (Inr (JoinHostPort (host a) (port a), b), hp', w') \<and>
           JoinHostPort (host a) (port a) \<noteq> [] \<and>
           (CHR '':'' \<notin> set (host a) \<longrightarrow>
              JoinHostPort (host a) (port a) = host a @ '':'' @ port a) \<and>
           servers hp' = servers hp \<and>
           servers hp' ! nat (curr hp') = a \<and>
           \<not> resolved (servers hp' ! nat (curr hp'))"
proof -
  obtain r hp' w' where n: "Next hp w = (r, hp', w')"
    by (cases "Next hp w")
  then have hp': "hp' = fst (snd (Next hp w))" and r: "r = fst (Next hp w)"
    by simp_all
  have "(\<exists>e. effective_lookupHost hp' w (host a) = Inl e) \<or>
        effective_lookupHost hp' w (host a) = Inr []"
    unfolding hp' using assms(5) by (simp add: effective_lookupHost_Next)
  with assms(4) have "fst (resolve hp' a w) = a"
    by (rule resolve_failure)
  with Next_result [OF assms(1,2), of w]
  have "r = Inr (addr a, (curr hp + 1) mod int (length (servers hp)) = last_ix hp)"
    by (simp add: r assms(3) hp')
  then have "\<exists>b. r = Inr (JoinHostPort (host a) (port a), b)"
    by (simp add: addr_def)
  moreover have s: "servers hp' = servers hp"
    unfolding hp' by (rule Next_servers)
  moreover have "curr hp' = (curr hp + 1) mod int (length (servers hp))"
    unfolding hp' using assms(1,2) by (rule Next_curr_mod)
  with s assms(3) have at: "servers hp' ! nat (curr hp') = a"
    by simp
  moreover from at assms(4) have "\<not> resolved (servers hp' ! nat (curr hp'))"
    by simp
  moreover note JoinHostPort_nonempty [of "host a" "port a"]
  moreover have "CHR '':'' \<notin> set (host a) \<longrightarrow>
      JoinHostPort (host a) (port a) = host a @ '':'' @ port a"
    by (simp add: JoinHostPort_plain)
  ultimately show ?thesis
    using n by blast
qed

theorem C5_Next_lookup_failure_witness:
  "servers (provider3\<lparr>lookupHost := Some failing_resolver\<rparr>) \<noteq> [] \<and>
   - 1 \<le> curr (provider3\<lparr>lookupHost := Some failing_resolver\<rparr>) \<and>
   \<lparr>host = ''zk3'', port = ''2181'', resolved = False\<rparr> =
     servers (provider3\<lparr>lookupHost := Some failing_resolver\<rparr>) !
       nat ((curr (provider3\<lparr>lookupHost := Some failing_resolver\<rparr>) + 1) mod
            int (length (servers (provider3\<lparr>lookupHost := Some failing_resolver\<rparr>)))) \<and>
   (\<exists>e. effective_lookupHost (provider3\<lparr>lookupHost := Some failing_resolver\<rparr>) world3 ''zk3''
          = Inl e) \<and>
   (\<exists>b hp' w'.
      Next (provider3\<lparr>lookupHost := Some failing_resolver\<rparr>) world3 =
        (Inr (''zk3:2181'', b), hp', w') \<and>
      \<not> resolved (servers hp' ! nat (curr hp')))"
proof -
  let ?hp = "provider3\<lparr>lookupHost := Some failing_resolver\<rparr>"
  let ?a = "\<lparr>host = ''zk3'', port = ''2181'', resolved = False\<rparr>"
  have h1: "servers ?hp \<noteq> []"
    using provider3_values(1) by auto
  have h2: "- 1 \<le> curr ?hp"
    by (simp add: provider3_values)
  have "servers provider3 ! 0 = ?a"
    by code_simp
  then have h3: "?a = servers ?hp ! nat ((curr ?hp + 1) mod int (length (servers ?hp)))"
    by (simp add: provider3_values)
  have h4: "\<not> resolved ?a"
    by simp
  have l: "effective_lookupHost ?hp world3 ''zk3'' = Inl (LookupError ''zk3'')"
    by (simp add: effective_lookupHost_def failing_resolver_def)
  then have h5: "(\<exists>e. effective_lookupHost ?hp world3 (host ?a) = Inl e) \<or>
      effective_lookupHost ?hp world3 (host ?a) = Inr []"
    by simp
  have j: "JoinHostPort ''zk3'' ''2181'' = ''zk3:2181''"
    by code_simp
  from l have l': "\<exists>e. effective_lookupHost ?hp world3 ''zk3'' = Inl e"
    by blast
  from C5_Next_lookup_failure [OF h1 h2 h3 h4 h5]
  obtain b hp' w' where
    n: "Next ?hp world3 = (Inr (JoinHostPort (host ?a) (port ?a), b), hp', w')" and
    u: "\<not> resolved (servers hp' ! nat (curr hp'))"
    by blast
  from n j have "Next ?hp world3 = (Inr (''zk3:2181'', b), hp', w')"
    by simp
  with u have "\<exists>b hp' w'. Next ?hp world3 = (Inr (''zk3:2181'', b), hp', w') \<and>
      \<not> resolved (servers hp' ! nat (curr hp'))"
    by blast
  with h1 h2 h3 l' show ?thesis
    by blast
qed

section \<open>Repeated calls of Next\<close>

lemma Next_times_snoc:
  "Next_times (Suc n) hp w =
     (case Next_times n hp w of
        (rs, hp1, w1) \<Rightarrow> (case Next hp1 w1 of (r, hp2, w2) \<Rightarrow> (rs @ [r], hp2, w2)))"
proof (induction n arbitrary: hp w)
  case 0
  show ?case by (simp add: split_def)
next
  case (Suc n)
  have "Next_times (Suc (Suc n)) hp w =
          (case Next hp w of
             (r, hp1, w1) \<Rightarrow>
               (case Next_times (Suc n) hp1 w1 of (rs, hp2, w2) \<Rightarrow> (r # rs, hp2, w2)))"
    by (rule Next_times.simps(2))
  also have "\<dots> =
          (case Next_times (Suc n) hp w of
             (rs, hp1, w1) \<Rightarrow> (case Next hp1 w1 of (r, hp2, w2) \<Rightarrow> (rs @ [r], hp2, w2)))"
    by (subst Suc.IH) (simp add: split_def)
  finally show ?case .
qed

lemma Next_flag:
  assumes "servers hp \<noteq> []" and "- 1 \<le> curr hp"
  shows "retry_flags [fst (Next hp w)] =
           [Some ((curr hp + 1) mod int (length (servers hp)) = last_ix hp)]"
  using Next_result [OF assms, of w] by (simp add: retry_flags_def)

lemma Next_times_no_wrap:
  assumes "servers hp \<noteq> []" and "last_ix hp = 0" and "0 \<le> curr hp"
    and "curr hp + int k < int (length (servers hp))"
  shows "retry_flags (fst (Next_times k hp w)) = replicate k (Some False) \<and>
         curr (fst (snd (Next_times k hp w))) = curr hp + int k \<and>
         last_ix (fst (snd (Next_times k hp w))) = 0 \<and>
         servers (fst (snd (Next_times k hp w))) = servers hp"
  using assms
proof (induction k arbitrary: hp w)
  case 0
  then show ?case by (simp add: retry_flags_def)
next
  case (Suc k)
  let ?hp1 = "fst (snd (Next hp w))"
  let ?w1 = "snd (snd (Next hp w))"
  have lo: "- 1 \<le> curr hp"
    using Suc.prems(3) by simp
  have m: "(curr hp + 1) mod int (length (servers hp)) = curr hp + 1"
    using Suc.prems(3,4) by simp
  have c1: "curr ?hp1 = curr hp + 1"
    using Next_curr_mod [OF Suc.prems(1) lo, of w] m by simp
  have s1: "servers ?hp1 = servers hp"
    by (rule Next_servers)
  have l1: "last_ix ?hp1 = 0"
    using Suc.prems(1,2) by (simp add: Next_last_ix)
  have f1: "retry_flags [fst (Next hp w)] = [Some False]"
    using Next_flag [OF Suc.prems(1) lo, of w] m Suc.prems(2,3) by simp
  have ih: "retry_flags (fst (Next_times k ?hp1 ?w1)) = replicate k (Some False) \<and>
         curr (fst (snd (Next_times k ?hp1 ?w1))) = curr ?hp1 + int k \<and>
         last_ix (fst (snd (Next_times k ?hp1 ?w1))) = 0 \<and>
         servers (fst (snd (Next_times k ?hp1 ?w1))) = servers ?hp1"
    using Suc.prems by (intro Suc.IH) (simp_all add: s1 l1 c1)
  have "retry_flags (fst (Next_times (Suc k) hp w)) =
          retry_flags [fst (Next hp w)] @ retry_flags (fst (Next_times k ?hp1 ?w1))"
    by (simp add: split_def retry_flags_def)
  with f1 ih have "retry_flags (fst (Next_times (Suc k) hp w)) = replicate (Suc k) (Some False)"
    by simp
  moreover have "fst (snd (Next_times (Suc k) hp w)) = fst (snd (Next_times k ?hp1 ?w1))"
    by (simp add: split_def)
  ultimately show ?case
    using ih c1 s1 by simp
qed

lemma parse_servers_length:
  "parse_servers srvs acc = Inr as \<Longrightarrow> length as = length acc + length srvs"
proof (induction srvs arbitrary: acc)
  case Nil
  then show ?case by simp
next
  case (Cons s srvs)
  show ?case
  proof (cases "SplitHostPort s")
    case (Inl e)
    with Cons.prems show ?thesis by simp
  next
    case (Inr hp)
    obtain h p where "hp = (h, p)" by (cases hp)
    with Cons.prems Inr
    have "parse_servers srvs (acc @ [\<lparr>host = h, port = p, resolved = False\<rparr>]) = Inr as"
      by simp
    from Cons.IH [OF this] show ?thesis by simp
  qed
qed

lemma Init_None_length:
  assumes "Init hp0 srvs w = (None, hp, w')"
  shows "length (servers hp) = length srvs"
proof -
  from assms obtain addrs where p: "parse_servers srvs [] = Inr addrs"
    and hp: "hp = hp0\<lparr>servers := fst (Shuffle addrs w), curr := - 1, last_ix := - 1\<rparr>"
    by (rule Init_None_cases)
  from parse_servers_length [OF p] show ?thesis
    by (simp add: hp Shuffle_length)
qed

lemma full_cycle:
  assumes "servers hp \<noteq> []" and "curr hp = - 1" and "last_ix hp = - 1"
  shows "retry_flags (fst (Next_times (length (servers hp)) hp w)) =
           replicate (length (servers hp)) (Some False) \<and>
         retry_flags (fst (Next_times (Suc (length (servers hp))) hp w)) =
           replicate (length (servers hp)) (Some False) @ [Some True] \<and>
         curr (fst (snd (Next_times (Suc (length (servers hp))) hp w))) = 0"
proof -
  let ?N = "length (servers hp)"
  let ?hp1 = "fst (snd (Next hp w))"
  let ?w1 = "snd (snd (Next hp w))"
  obtain k where N: "?N = Suc k"
    using assms(1) by (cases "servers hp") simp_all
  have lo: "- 1 \<le> curr hp"
    using assms(2) by simp
  have c1: "curr ?hp1 = 0"
    using Next_curr_mod [OF assms(1) lo, of w] assms(2) by simp
  have s1: "servers ?hp1 = servers hp"
    by (rule Next_servers)
  have ne1: "servers ?hp1 \<noteq> []"
    using assms(1) s1 by simp
  have l1: "last_ix ?hp1 = 0"
    using assms(1,3) by (simp add: Next_last_ix)
  have f1: "retry_flags [fst (Next hp w)] = [Some False]"
    using Next_flag [OF assms(1) lo, of w] assms(2,3) by simp
  have "curr ?hp1 + int k < int (length (servers ?hp1))"
    using c1 s1 N by simp
  with ne1 l1 c1
  have rest: "retry_flags (fst (Next_times k ?hp1 ?w1)) = replicate k (Some False) \<and>
         curr (fst (snd (Next_times k ?hp1 ?w1))) = curr ?hp1 + int k \<and>
         last_ix (fst (snd (Next_times k ?hp1 ?w1))) = 0 \<and>
         servers (fst (snd (Next_times k ?hp1 ?w1))) = servers ?hp1"
    by (intro Next_times_no_wrap) simp_all
  let ?hp2 = "fst (snd (Next_times k ?hp1 ?w1))"
  let ?w2 = "snd (snd (Next_times k ?hp1 ?w1))"
  have first: "retry_flags (fst (Next_times (Suc k) hp w)) = replicate (Suc k) (Some False)"
    using f1 rest by (simp add: split_def retry_flags_def)
  have st: "fst (snd (Next_times (Suc k) hp w)) = ?hp2"
    and wd: "snd (snd (Next_times (Suc k) hp w)) = ?w2"
    by (simp_all add: split_def)
  have ne2: "servers ?hp2 \<noteq> []" and c2: "curr ?hp2 = int k" and l2: "last_ix ?hp2 = 0"
    and n2: "int (length (servers ?hp2)) = int k + 1"
    using rest ne1 c1 s1 N by simp_all
  have lo2: "- 1 \<le> curr ?hp2"
    using c2 by simp
  have f2: "retry_flags [fst (Next ?hp2 ?w2)] = [Some True]"
    using Next_flag [OF ne2 lo2, of ?w2] by (simp add: c2 l2 n2)
  have c3: "curr (fst (snd (Next ?hp2 ?w2))) = 0"
    using Next_curr_mod [OF ne2 lo2, of ?w2] by (simp add: c2 n2)
  have "retry_flags (fst (Next_times (Suc (Suc k)) hp w)) =
          retry_flags (fst (Next_times (Suc k) hp w)) @ retry_flags [fst (Next ?hp2 ?w2)]"
    by (subst Next_times_snoc) (simp add: split_def retry_flags_def st wd)
  with first f2
  have last: "retry_flags (fst (Next_times (Suc (Suc k)) hp w)) =
          replicate (Suc k) (Some False) @ [Some True]"
    by simp
  have "fst (snd (Next_times (Suc (Suc k)) hp w)) = fst (snd (Next ?hp2 ?w2))"
    by (subst Next_times_snoc) (simp add: split_def st wd)
  with c3 have "curr (fst (snd (Next_times (Suc (Suc k)) hp w))) = 0"
    by simp
  with first last show ?thesis
    by (simp only: N)
qed

text \<open>
  C2, as the code has it. After a successful \<open>Init\<close> with N candidates (N at least 1),
  N calls of \<open>Next\<close> with no \<open>Connected\<close> in between return retryStart = false each,
  visiting the indices 0 to N - 1; retryStart = true comes with call N + 1, the one on
  which the cursor returns to index 0, the default anchor.
\<close>

theorem C2_retryStart_after_cycle:
  assumes "Init hp0 srvs w0 = (None, hp, w)"
  shows "length (servers hp) = length srvs \<and> 1 \<le> length srvs \<and>
         retry_flags (fst (Next_times (length srvs) hp w)) =
           replicate (length srvs) (Some False) \<and>
         retry_flags (fst (Next_times (Suc (length srvs)) hp w)) =
           replicate (length srvs) (Some False) @ [Some True] \<and>
         curr (fst (snd (Next_times (Suc (length srvs)) hp w))) = 0"
proof -
  from Init_None_state [OF assms]
  have ne: "servers hp \<noteq> []" and c: "curr hp = - 1" and l: "last_ix hp = - 1"
    by simp_all
  have n: "length (servers hp) = length srvs"
    using assms by (rule Init_None_length)
  with ne have "1 \<le> length srvs"
    by (cases "servers hp") auto
  with full_cycle [OF ne c l, of w] n show ?thesis
    by simp
qed

lemma Init_zk3:
  "Init (zero_provider (Some self_resolver)) zk3 world0 = (None, provider3, world3)"
proof -
  have "fst (Init (zero_provider (Some self_resolver)) zk3 world0) = None"
    by code_simp
  then show ?thesis
    by (simp add: provider3_def world3_def prod_eq_iff)
qed

theorem C2_retryStart_after_cycle_witness:
  "Init (zero_provider (Some self_resolver)) zk3 world0 = (None, provider3, world3) \<and>
   length (servers provider3) = 3 \<and>
   retry_flags (fst (Next_times 3 provider3 world3)) = [Some False, Some False, Some False] \<and>
   retry_flags (fst (Next_times 4 provider3 world3)) =
     [Some False, Some False, Some False, Some True] \<and>
   curr (fst (snd (Next_times 4 provider3 world3))) = 0"
proof -
  have n: "length zk3 = 3" "Suc 3 = 4" "replicate 3 (Some False) = [Some False, Some False, Some False]"
    by (simp_all add: zk3_def numeral_3_eq_3)
  from C2_retryStart_after_cycle [OF Init_zk3] Init_zk3 show ?thesis
    by (simp only: n provider3_values) simp
qed

text \<open>
  The claim C2 as written fails: with the three servers of the spec's scenario the third
  \<open>Next\<close> call, the Nth, returns retryStart = false; the cursor is then at index 2, not 0.
\<close>

theorem C2_third_call_counterexample:
  "fst (Init (zero_provider (Some self_resolver)) zk3 world0) = None \<and>
   length (servers provider3) = 3 \<and>
   retry_flags (fst (Next_times 3 provider3 world3)) = [Some False, Some False, Some False] \<and>
   curr (fst (snd (Next_times 3 provider3 world3))) = 2"
proof -
  have "fst (Init (zero_provider (Some self_resolver)) zk3 world0) = None"
    by code_simp
  moreover have "length (servers provider3) = 3"
    by code_simp
  moreover
  have "retry_flags (fst (Next_times 3 provider3 world3)) = [Some False, Some False, Some False]"
    by code_simp
  moreover have "curr (fst (snd (Next_times 3 provider3 world3))) = 2"
    by code_simp
  ultimately show ?thesis
    by blast
qed

section \<open>Resolution on every call\<close>

lemma resolve_unresolved_lookups:
  "\<not> resolved a \<Longrightarrow> lookups (snd (snd (resolve hp a w))) = lookups w @ [host a]"
  by (simp add: resolve_def Let_def split_def Shuffle_world split: sum.splits)

lemma Printf_lookups: "lookups (Printf h e w) = lookups w"
  by (simp add: Printf_def)

lemma Next_always_looks_up:
  assumes "reachable hp"
  shows "servers (fst (snd (Next hp w))) = servers hp \<and>
         lookups (snd (snd (Next hp w))) =
           lookups w @ [host (servers hp ! nat ((curr hp + 1) mod int (length (servers hp))))]"
proof -
  let ?c = "(curr hp + 1) mod int (length (servers hp))"
  from reachable_facts [OF assms]
  have ne: "servers hp \<noteq> []" and lo: "- 1 \<le> curr hp"
    and un: "\<forall>a\<in>set (servers hp). \<not> resolved a"
    by (auto simp: hp_inv_def)
  have c: "go_rem (curr hp + 1) (int (length (servers hp))) = ?c"
    using lo by (simp add: go_rem_nonneg)
  have "\<not> ?c < 0" and "\<not> int (length (servers hp)) \<le> ?c"
    using mod_index [OF ne lo] by linarith+
  then have r: "(?c < 0) = False" "(int (length (servers hp)) \<le> ?c) = False"
    by simp_all
  have "nat ?c < length (servers hp)"
    using mod_index [OF ne lo] by linarith
  with un have u: "\<not> resolved (servers hp ! nat ?c)"
    by simp
  have "lookups (snd (snd (Next hp w))) = lookups w @ [host (servers hp ! nat ?c)]"
    using ne u
    by (simp add: Next_def Let_def split_def c r resolve_unresolved_lookups Printf_lookups
          split: option.splits)
  then show ?thesis
    by (simp add: Next_servers)
qed

text \<open>
  C1. The claim does not hold of the code: \<open>Next\<close> never stores the record that \<open>resolve\<close>
  returns, so no entry of the sequence is ever marked resolved and every call looks the
  host up again. With the single server \<open>a:2181\<close> and a resolver that answers
  \<open>10.0.0.1\<close> for \<open>a\<close>, two \<open>Next\<close> calls land on the same index; both return
  \<open>10.0.0.1:2181\<close>, the resolver has been invoked twice, and the entry of the sequence
  is still the unresolved \<open>a\<close>.
\<close>

theorem C1_resolution_not_cached:
  "fst (Init (zero_provider (Some a_resolver)) [''a:2181''] world0) = None \<and>
   fst (Next_times 2 provider_a world_a) =
     [Inr (''10.0.0.1:2181'', False), Inr (''10.0.0.1:2181'', True)] \<and>
   lookups world_a = [] \<and>
   lookups (snd (snd (Next_times 2 provider_a world_a))) = [''a'', ''a''] \<and>
   servers provider_a = [\<lparr>host = ''a'', port = ''2181'', resolved = False\<rparr>] \<and>
   servers (fst (snd (Next_times 2 provider_a world_a))) =
     [\<lparr>host = ''a'', port = ''2181'', resolved = False\<rparr>]"
proof -
  have "fst (Init (zero_provider (Some a_resolver)) [''a:2181''] world0) = None"
    by code_simp
  moreover
  have "fst (Next_times 2 provider_a world_a) =
          [Inr (''10.0.0.1:2181'', False), Inr (''10.0.0.1:2181'', True)]"
    by code_simp
  moreover have "lookups world_a = []"
    by code_simp
  moreover have "lookups (snd (snd (Next_times 2 provider_a world_a))) = [''a'', ''a'']"
    by code_simp
  moreover
  have "servers provider_a = [\<lparr>host = ''a'', port = ''2181'', resolved = False\<rparr>]"
    by code_simp
  moreover
  have "servers (fst (snd (Next_times 2 provider_a world_a))) =
          [\<lparr>host = ''a'', port = ''2181'', resolved = False\<rparr>]"
    by code_simp
  ultimately show ?thesis
    by blast
qed

end
